theory Spec2Isabelle
  imports Main "HOL-Library.Char_ord" "HOL-Library.List_Lexorder" "HOL-Library.Product_Lexorder"
begin

section \<open>Strings and paths\<close>

text \<open>
  The program is \<^verbatim>\<open>analyze_diff.py\<close>. Python strings are modelled as
  \<^typ>\<open>string\<close>; an \<^verbatim>\<open>Optional[str]\<close> is a \<^typ>\<open>string option\<close>.
  The character functions (\<^verbatim>\<open>str.lower\<close>, the regular expression class
  \<^verbatim>\<open>\w\<close>) are modelled on ASCII, where they are letter folding and
  \<^verbatim>\<open>[A-Za-z0-9_]\<close>; theorems that depend on them and quantify over paths
  assume \<open>is_ascii\<close>.
\<close>

definition is_ascii :: "string \<Rightarrow> bool" where
  "is_ascii s = list_all (\<lambda>c. \<not> digit7 c) s"

definition ascii_opt :: "string option \<Rightarrow> bool" where
  "ascii_opt x = (case x of None \<Rightarrow> True | Some s \<Rightarrow> is_ascii s)"

definition lower_char :: "char \<Rightarrow> char" where
  "lower_char c =
     (case map_of (zip ''ABCDEFGHIJKLMNOPQRSTUVWXYZ'' ''abcdefghijklmnopqrstuvwxyz'') c of
        None \<Rightarrow> c
      | Some d \<Rightarrow> d)"

definition str_lower :: "string \<Rightarrow> string" where
  "str_lower s = map lower_char s"

definition startswith :: "string \<Rightarrow> string \<Rightarrow> bool" where
  "startswith s w = (take (length w) s = w)"

text \<open>\<^verbatim>\<open>s.split("/")\<close>: the segments between slashes, empty ones included;
  the empty string splits into one empty segment.\<close>

fun split_slash :: "string \<Rightarrow> string list" where
  "split_slash [] = [[]]"
| "split_slash (c # cs) =
     (if c = CHR ''/'' then [] # split_slash cs
      else (case split_slash cs of [] \<Rightarrow> [[c]] | s # ss \<Rightarrow> (c # s) # ss))"

text \<open>\<^verbatim>\<open>Path(p).name\<close> of a POSIX path: the last component, where empty
  components and \<^verbatim>\<open>.\<close> components are dropped by the path parser; the empty
  string when no component is left.\<close>

definition path_parts :: "string \<Rightarrow> string list" where
  "path_parts p = filter (\<lambda>s. s \<noteq> [] \<and> s \<noteq> ''.'') (split_slash p)"

definition path_name :: "string \<Rightarrow> string" where
  "path_name p = (case rev (path_parts p) of [] \<Rightarrow> [] | n # _ \<Rightarrow> n)"

text \<open>\<^verbatim>\<open>s.rfind(c)\<close>: the last index of \<open>c\<close>, or \<open>-1\<close>.\<close>

fun rfind :: "char \<Rightarrow> string \<Rightarrow> int" where
  "rfind c [] = -1"
| "rfind c (x # xs) =
     (let r = rfind c xs in if 0 \<le> r then r + 1 else if x = c then 0 else -1)"

text \<open>\<^verbatim>\<open>Path(p).suffix\<close>: with \<open>i = name.rfind('.')\<close>, the text
  \<open>name[i:]\<close> when \<open>0 < i < len(name) - 1\<close>, else the empty string.\<close>

definition path_suffix :: "string \<Rightarrow> string" where
  "path_suffix p =
     (let name = path_name p; i = rfind (CHR ''.'') name
      in if 0 < i \<and> i < int (length name) - 1 then drop (nat i) name else [])"

section \<open>File classifier\<close>

text \<open>The two regular expressions of \<^verbatim>\<open>is_test_file\<close>, searched in the
  lowered path. \<^verbatim>\<open>(^|/)\<close> lets the rest of the pattern start at position 0
  or right after a slash: \<open>anchors\<close> lists the text from each such position on.\<close>

definition is_word :: "char \<Rightarrow> bool" where
  "is_word c =
     (c \<in> set ''abcdefghijklmnopqrstuvwxyzABCDEFGHIJKLMNOPQRSTUVWXYZ0123456789_'')"

fun after_slashes :: "string \<Rightarrow> string list" where
  "after_slashes [] = []"
| "after_slashes (c # cs) =
     (if c = CHR ''/'' then cs # after_slashes cs else after_slashes cs)"

definition anchors :: "string \<Rightarrow> string list" where
  "anchors p = p # after_slashes p"

text \<open>\<^verbatim>\<open>\b\<close> right after a word character: the text ends here or goes on
  with a character that is not a word character.\<close>

fun word_boundary :: "string \<Rightarrow> bool" where
  "word_boundary [] = True"
| "word_boundary (c # cs) = (\<not> is_word c)"

text \<open>\<^verbatim>\<open>(tests?|test_)\b\<close> at the start of \<open>s\<close>. Each alternative
  ends in a word character (\<open>t\<close>, \<open>s\<close> or \<open>_\<close>).\<close>

definition match_test_here :: "string \<Rightarrow> bool" where
  "match_test_here s =
     list_ex (\<lambda>w. startswith s w \<and> word_boundary (drop (length w) s))
       [''tests'', ''test'', ''test_'']"

definition re_test :: "string \<Rightarrow> bool" where
  "re_test p = list_ex match_test_here (anchors p)"

text \<open>\<^verbatim>\<open>(^|/)conftest\.py$\<close>: \<^verbatim>\<open>$\<close> matches at the end of the
  text and before a newline that ends the text.\<close>

definition re_conftest :: "string \<Rightarrow> bool" where
  "re_conftest p =
     list_ex (\<lambda>s. s = ''conftest.py'' \<or> s = ''conftest.py'' @ [CHR 0x0A]) (anchors p)"

definition is_test_file :: "string option \<Rightarrow> bool" where
  "is_test_file path =
     (case path of
        None \<Rightarrow> False
      | Some s \<Rightarrow>
          if s = [] then False
          else (let p = str_lower s
                in ''test'' \<in> set (split_slash p) \<or> re_test p \<or> re_conftest p))"

definition SOURCE_EXTS :: "string list" where
  "SOURCE_EXTS =
     [''.c'', ''.h'', ''.cpp'', ''.cc'', ''.cxx'', ''.hpp'',
      ''.java'', ''.py'', ''.rb'', ''.go'', ''.rs'', ''.php'',
      ''.cs'', ''.kt'', ''.m'', ''.mm'', ''.swift'',
      ''.js'', ''.jsx'', ''.ts'', ''.tsx'',
      ''.scala'', ''.pl'', ''.r'', ''.jl'', ''.lua'',
      ''.sh'', ''.bash'', ''.zsh'', ''.ps1'']"

definition is_source_code :: "string option \<Rightarrow> bool" where
  "is_source_code path =
     (case path of
        None \<Rightarrow> False
      | Some s \<Rightarrow>
          if s = [] then False else str_lower (path_suffix s) \<in> set SOURCE_EXTS)"

definition is_readme :: "string option \<Rightarrow> bool" where
  "is_readme path =
     (case path of
        None \<Rightarrow> False
      | Some s \<Rightarrow>
          if s = [] then False else startswith (str_lower (path_name s)) ''readme'')"

definition is_license :: "string option \<Rightarrow> bool" where
  "is_license path =
     (case path of
        None \<Rightarrow> False
      | Some s \<Rightarrow>
          if s = [] then False
          else (let name = str_lower (path_name s)
                in startswith name ''license'' \<or> startswith name ''licence''))"

text \<open>\<^verbatim>\<open>x or d\<close> on an optional string: \<open>None\<close> and the empty string
  are both false in Python.\<close>

definition or_else :: "string option \<Rightarrow> string \<Rightarrow> string" where
  "or_else x d = (case x of None \<Rightarrow> d | Some s \<Rightarrow> if s = [] then d else s)"

definition classify_file :: "string option \<Rightarrow> string option \<Rightarrow> string" where
  "classify_file old_path new_path =
     (let p = str_lower (or_else new_path (or_else old_path []))
      in if is_readme (Some p) then ''readme''
         else if is_license (Some p) then ''license''
         else if is_test_file (Some p) then ''test''
         else if is_source_code (Some p) then ''source''
         else ''other'')"

section \<open>Commits and file changes\<close>

text \<open>What the history library hands to the program: a modified file with its optional
  old and new path, and a commit with its hash, its parents' hashes, its message and its
  modified files.\<close>

record modified_file =
  old_path :: "string option"
  new_path :: "string option"

record commit =
  hash :: string
  parents :: "string list"
  msg :: string
  modified_files :: "modified_file list"

record RepoSpec =
  url :: string
  name :: string
  path :: string

section \<open>Diff invoker\<close>

text \<open>\<^verbatim>\<open>run(cmd, cwd)\<close> starts the external process with \<^verbatim>\<open>check=False\<close>
  and returns its exit code and captured output; a failing exit code raises nothing. The
  external process is a parameter of the model: a function from the command line and the
  working directory to the completed process.\<close>

record CompletedProcess =
  returncode :: int
  stdout :: string
  stderr :: string

type_synonym runner = "string list \<Rightarrow> string \<Rightarrow> CompletedProcess"

definition diff_cmd :: "string \<Rightarrow> string \<Rightarrow> string list \<Rightarrow> string \<Rightarrow> string list" where
  "diff_cmd parent_sha commit_sha paths algorithm =
     [''git'', ''-c'', ''core.safecrlf=false'', ''diff'',
      ''--ignore-blank-lines'', ''-w'',
      ''--diff-algorithm='' @ algorithm,
      parent_sha, commit_sha,
      ''--find-renames'', ''--''] @ paths"

definition git_diff_single ::
  "runner \<Rightarrow> string \<Rightarrow> string \<Rightarrow> string \<Rightarrow> string list \<Rightarrow> string \<Rightarrow> string" where
  "git_diff_single run repo_dir parent_sha commit_sha paths algorithm =
     (let cp = run (diff_cmd parent_sha commit_sha paths algorithm) repo_dir
      in if returncode cp = 0 then stdout cp else stderr cp)"

section \<open>Records of the dataset\<close>

record row =
  repo :: string
  old_file_path :: string
  new_file_path :: string
  commit_sha :: string
  parent_commit_sha :: string
  commit_message :: string
  file_type :: string
  diff_myers :: string
  diff_hist :: string
  Discrepancy :: string

definition empty_tree :: string where
  "empty_tree = ''4b825dc642cb6eb9a060e54bf8d69288fbee4904''"

text \<open>\<^verbatim>\<open>commit.parents[0] if commit.parents else "4b825d..."\<close>\<close>

definition parent_of :: "commit \<Rightarrow> string" where
  "parent_of c = (case parents c of [] \<Rightarrow> empty_tree | p # _ \<Rightarrow> p)"

text \<open>\<^verbatim>\<open>list({p for p in [m.old_path, m.new_path] if p})\<close>: the paths that are
  neither \<open>None\<close> nor empty, without duplicates. Python lists a set in an order
  of its own; the model lists the old path first.\<close>

definition truthy_list :: "string option \<Rightarrow> string list" where
  "truthy_list x = (case x of None \<Rightarrow> [] | Some s \<Rightarrow> if s = [] then [] else [s])"

definition change_paths :: "modified_file \<Rightarrow> string list" where
  "change_paths m = remdups (truthy_list (old_path m) @ truthy_list (new_path m))"

text \<open>\<^verbatim>\<open>commit.msg.strip().replace("\n", " ")\<close>\<close>

definition is_space :: "char \<Rightarrow> bool" where
  "is_space c =
     (c \<in> set [CHR 0x09, CHR 0x0A, CHR 0x0B, CHR 0x0C, CHR 0x0D,
                CHR 0x1C, CHR 0x1D, CHR 0x1E, CHR 0x1F, CHR '' ''])"

definition strip :: "string \<Rightarrow> string" where
  "strip s = rev (dropWhile is_space (rev (dropWhile is_space s)))"

definition replace_newlines :: "string \<Rightarrow> string" where
  "replace_newlines s = map (\<lambda>c. if c = CHR 0x0A then CHR '' '' else c) s"

text \<open>The body of the inner loop of \<^verbatim>\<open>analyze_repo\<close> for one modified file
  whose path list is not empty: two diffs, the comparison, the classification and the
  dictionary appended to \<open>rows\<close>.\<close>

definition file_row :: "runner \<Rightarrow> RepoSpec \<Rightarrow> commit \<Rightarrow> string \<Rightarrow> modified_file \<Rightarrow> row" where
  "file_row run spec c parent_sha m =
     (let paths = change_paths m;
          myers = git_diff_single run (path spec) parent_sha (hash c) paths ''myers'';
          hist = git_diff_single run (path spec) parent_sha (hash c) paths ''histogram'';
          discrep = (if myers = hist then ''No'' else ''Yes'');
          ftype = classify_file (old_path m) (new_path m)
      in \<lparr>repo = name spec,
          old_file_path = or_else (old_path m) [],
          new_file_path = or_else (new_path m) [],
          commit_sha = hash c,
          parent_commit_sha = parent_sha,
          commit_message = replace_newlines (strip (msg c)),
          file_type = ftype,
          diff_myers = myers,
          diff_hist = hist,
          Discrepancy = discrep\<rparr>)"

text \<open>\<^verbatim>\<open>for m in commit.modified_files\<close>, with \<^verbatim>\<open>continue\<close> when the
  path list is empty.\<close>

fun files_loop ::
  "runner \<Rightarrow> RepoSpec \<Rightarrow> commit \<Rightarrow> string \<Rightarrow> modified_file list \<Rightarrow> row list \<Rightarrow> row list" where
  "files_loop run spec c parent_sha [] rows = rows"
| "files_loop run spec c parent_sha (m # ms) rows =
     (if change_paths m = [] then files_loop run spec c parent_sha ms rows
      else files_loop run spec c parent_sha ms (rows @ [file_row run spec c parent_sha m]))"

text \<open>\<^verbatim>\<open>for commit in ...traverse_commits()\<close>, over the commits the traversal
  yields, with the counter \<open>seen\<close> and the \<^verbatim>\<open>break\<close> at the cutoff. The
  result is the final counter and the rows.\<close>

fun commits_loop ::
  "runner \<Rightarrow> RepoSpec \<Rightarrow> int \<Rightarrow> commit list \<Rightarrow> int \<Rightarrow> row list \<Rightarrow> int \<times> row list" where
  "commits_loop run spec max_commits [] seen rows = (seen, rows)"
| "commits_loop run spec max_commits (c # cs) seen rows =
     (if max_commits \<noteq> 0 \<and> max_commits \<le> seen then (seen, rows)
      else commits_loop run spec max_commits cs (seen + 1)
             (files_loop run spec c (parent_of c) (modified_files c) rows))"

section \<open>The libraries behind the walker and the aggregator\<close>

text \<open>The commit traversal and the data frames are library calls (PyDriller, pandas).
  They are modelled by what the libraries document for the calls the program makes.

  \<^verbatim>\<open>Repository(path, order=..., only_no_merge=...).traverse_commits()\<close>: the
  history of a repository is the list of its commits, oldest first. Without an order the
  library yields them oldest first; with an order it drops the reversal it otherwise asks
  of \<^verbatim>\<open>git rev-list\<close>, so \<^verbatim>\<open>order="reverse"\<close> yields the newest commit first.
  \<^verbatim>\<open>only_no_merge\<close> leaves out the commits with more than one parent.\<close>

definition traverse_commits :: "string option \<Rightarrow> bool \<Rightarrow> commit list \<Rightarrow> commit list" where
  "traverse_commits order only_no_merge history =
     (let cs = (if only_no_merge then filter (\<lambda>c. length (parents c) \<le> 1) history
                else history)
      in if order = None then cs else rev cs)"

text \<open>\<^verbatim>\<open>pd.DataFrame(rows)\<close> of a list of dictionaries takes its columns from the
  dictionaries' keys: a frame of no rows has no columns.\<close>

record data_frame =
  columns :: "string list"
  records :: "row list"

datatype error = ValueError string | KeyError string

definition row_keys :: "string list" where
  "row_keys =
     [''repo'', ''old_file_path'', ''new_file_path'', ''commit_sha'',
      ''parent_commit_sha'', ''commit_message'', ''file_type'',
      ''diff_myers'', ''diff_hist'', ''Discrepancy'']"

definition DataFrame :: "row list \<Rightarrow> data_frame" where
  "DataFrame rows = \<lparr>columns = (if rows = [] then [] else row_keys), records = rows\<rparr>"

text \<open>\<^verbatim>\<open>pd.concat(dfs, ignore_index=True)\<close>: the rows of all frames in order, the
  columns being the union of theirs in order of first appearance; an empty list of frames
  raises \<^verbatim>\<open>ValueError\<close>.\<close>

definition pd_concat :: "data_frame list \<Rightarrow> error + data_frame" where
  "pd_concat dfs =
     (if dfs = [] then Inl (ValueError ''No objects to concatenate'')
      else Inr \<lparr>columns = rev (remdups (rev (concat (map columns dfs)))),
                records = concat (map records dfs)\<rparr>)"

text \<open>\<^verbatim>\<open>df.groupby(["file_type","Discrepancy"]).size().reset_index(name="count")\<close>:
  a key that is not a column raises \<^verbatim>\<open>KeyError\<close>; otherwise one entry for each
  pair of values that occurs, in sorted order, with the number of rows that have it.\<close>

definition group_key :: "row \<Rightarrow> string \<times> string" where
  "group_key r = (file_type r, Discrepancy r)"

definition groupby_size :: "data_frame \<Rightarrow> error + ((string \<times> string) \<times> int) list" where
  "groupby_size df =
     (if ''file_type'' \<notin> set (columns df) then Inl (KeyError ''file_type'')
      else if ''Discrepancy'' \<notin> set (columns df) then Inl (KeyError ''Discrepancy'')
      else (let keys = map group_key (records df)
            in Inr (map (\<lambda>k. (k, int (count_list keys k))) (sort (remdups keys)))))"

text \<open>\<^verbatim>\<open>.pivot(index="file_type", columns="Discrepancy", values="count")\<close>: one
  row for each file type among the entries and one column for each verdict among them,
  both sorted; a cell holds the count of its pair, or nothing when the pair has no entry.
  \<^verbatim>\<open>.fillna(0).astype(int)\<close> then puts 0 into the cells that hold nothing.\<close>

record 'a table =
  t_index :: "string list"
  t_columns :: "string list"
  t_values :: "'a list list"

definition pivot :: "((string \<times> string) \<times> int) list \<Rightarrow> int option table" where
  "pivot gs =
     (let idx = sort (remdups (map (\<lambda>g. fst (fst g)) gs));
          cls = sort (remdups (map (\<lambda>g. snd (fst g)) gs))
      in \<lparr>t_index = idx, t_columns = cls,
          t_values = map (\<lambda>i. map (\<lambda>c. map_of gs (i, c)) cls) idx\<rparr>)"

definition fillna0 :: "int option table \<Rightarrow> int table" where
  "fillna0 t =
     \<lparr>t_index = t_index t, t_columns = t_columns t,
      t_values = map (map (\<lambda>v. case v of None \<Rightarrow> 0 | Some n \<Rightarrow> n)) (t_values t)\<rparr>"

text \<open>The cell of a table at a row label and a column label, when both exist.\<close>

definition cell :: "'a table \<Rightarrow> string \<Rightarrow> string \<Rightarrow> 'a option" where
  "cell t i c =
     (case map_of (zip (t_index t) (t_values t)) i of
        None \<Rightarrow> None
      | Some vs \<Rightarrow> map_of (zip (t_columns t) vs) c)"

section \<open>Walker and aggregator\<close>

text \<open>\<^verbatim>\<open>analyze_repo\<close>: the repository at \<open>spec.path\<close> is given by its
  history, oldest commit first.\<close>

definition analyze_repo :: "runner \<Rightarrow> RepoSpec \<Rightarrow> commit list \<Rightarrow> int \<Rightarrow> bool \<Rightarrow> data_frame" where
  "analyze_repo run spec history max_commits include_merges =
     DataFrame (snd (commits_loop run spec max_commits
       (traverse_commits (Some ''reverse'') (\<not> include_merges) history) 0 []))"

definition stats_of :: "data_frame \<Rightarrow> error + int table" where
  "stats_of full =
     (case groupby_size full of
        Inl e \<Rightarrow> Inl e
      | Inr gs \<Rightarrow> Inr (fillna0 (pivot gs)))"

text \<open>\<^verbatim>\<open>build_and_save\<close> without a plots directory (the default), over
  repositories that are already cloned: what was written as the dataset, what was written
  as the summary, and the exception that ended the call, if any.\<close>

record outputs =
  dataset_csv :: "data_frame option"
  stats_csv :: "int table option"
  raised :: "error option"

definition build_and_save ::
  "runner \<Rightarrow> (RepoSpec \<times> commit list) list \<Rightarrow> int \<Rightarrow> bool \<Rightarrow> outputs" where
  "build_and_save run repos max_commits include_merges =
     (let all_dfs = map (\<lambda>(spec, history).
                      analyze_repo run spec history max_commits include_merges) repos
      in case pd_concat all_dfs of
           Inl e \<Rightarrow> \<lparr>dataset_csv = None, stats_csv = None, raised = Some e\<rparr>
         | Inr full \<Rightarrow>
             (case stats_of full of
                Inl e \<Rightarrow> \<lparr>dataset_csv = Some full, stats_csv = None, raised = Some e\<rparr>
              | Inr stats \<Rightarrow>
                  \<lparr>dataset_csv = Some full, stats_csv = Some stats, raised = None\<rparr>))"

section \<open>Derived notions used in the statements\<close>

text \<open>The rows one commit adds to the dataset, the prefix of a traversal that a cutoff
  lets through, and the commits of a history that the merge policy keeps.\<close>

definition commit_rows :: "runner \<Rightarrow> RepoSpec \<Rightarrow> commit \<Rightarrow> row list" where
  "commit_rows run spec c =
     map (file_row run spec c (parent_of c))
       (filter (\<lambda>m. change_paths m \<noteq> []) (modified_files c))"

definition cutoff :: "int \<Rightarrow> 'a list \<Rightarrow> 'a list" where
  "cutoff k cs = (if k = 0 then cs else take (nat k) cs)"

definition eligible :: "bool \<Rightarrow> commit list \<Rightarrow> commit list" where
  "eligible include_merges history =
     (if include_merges then history else filter (\<lambda>c. length (parents c) \<le> 1) history)"

section \<open>Example inputs\<close>

text \<open>A diff tool that always succeeds, one that fails under the histogram algorithm,
  and a repository of two commits: a root commit that adds \<open>a.py\<close> and a child that
  renames it and also lists a change without paths.\<close>

definition ex_run :: runner where
  "ex_run cmd cwd = \<lparr>returncode = 0, stdout = ''diff'', stderr = []\<rparr>"

definition ex_fail_run :: runner where
  "ex_fail_run cmd cwd =
     (if ''--diff-algorithm=histogram'' \<in> set cmd
      then \<lparr>returncode = 128, stdout = [], stderr = ''fatal: bad revision''\<rparr>
      else \<lparr>returncode = 0, stdout = ''diff'', stderr = []\<rparr>)"

definition ex_spec :: RepoSpec where
  "ex_spec = \<lparr>url = ''https://example.org/r.git'', name = ''r'', path = ''repos/r''\<rparr>"

definition ex_added :: modified_file where
  "ex_added = \<lparr>old_path = None, new_path = Some ''a.py''\<rparr>"

definition ex_renamed :: modified_file where
  "ex_renamed = \<lparr>old_path = Some ''a.py'', new_path = Some ''b.py''\<rparr>"

definition ex_no_paths :: modified_file where
  "ex_no_paths = \<lparr>old_path = None, new_path = None\<rparr>"

definition ex_root :: commit where
  "ex_root = \<lparr>hash = ''c1'', parents = [], msg = ''first'', modified_files = [ex_added]\<rparr>"

definition ex_child :: commit where
  "ex_child = \<lparr>hash = ''c2'', parents = [''c1''], msg = ''second'',
                modified_files = [ex_renamed, ex_no_paths]\<rparr>"

section \<open>Properties of the classifier\<close>


lemma split_slash_not_Nil: "split_slash s \<noteq> []"
  by (induction s) (auto split: list.splits)

lemma split_slash_no_slash: "CHR ''/'' \<notin> set n \<Longrightarrow> split_slash n = [n]"
  by (induction n) auto

lemma split_slash_append:
  "split_slash (d @ CHR ''/'' # n) = split_slash d @ split_slash n"
proof (induction d)
  case Nil
  show ?case by simp
next
  case (Cons c d)
  show ?case
  proof (cases "c = CHR ''/''")
    case True
    with Cons show ?thesis by simp
  next
    case False
    obtain s ss where "split_slash d = s # ss"
      using split_slash_not_Nil [of d] by (cases "split_slash d") auto
    with False Cons show ?thesis by simp
  qed
qed

lemma path_name_plain:
  "CHR ''/'' \<notin> set n \<Longrightarrow> n \<noteq> ''.'' \<Longrightarrow> path_name n = n"
  by (cases "n = []") (simp_all add: path_name_def path_parts_def split_slash_no_slash)

lemma path_name_append:
  "CHR ''/'' \<notin> set n \<Longrightarrow> n \<noteq> [] \<Longrightarrow> n \<noteq> ''.'' \<Longrightarrow> path_name (d @ CHR ''/'' # n) = n"
  by (simp add: path_name_def path_parts_def split_slash_append split_slash_no_slash)

lemma lower_char_slash: "(lower_char c = CHR ''/'') = (c = CHR ''/'')"
  by (auto simp: lower_char_def split: if_splits)

lemma str_lower_append: "str_lower (a @ b) = str_lower a @ str_lower b"
  by (simp add: str_lower_def)

lemma lower_char_slash2: "(CHR ''/'' = lower_char c) = (c = CHR ''/'')"
  using lower_char_slash [of c] by auto

lemma str_lower_slash: "(CHR ''/'' \<in> set (str_lower n)) = (CHR ''/'' \<in> set n)"
  unfolding str_lower_def by (induction n) (auto simp: lower_char_slash2)

lemma lower_char_idem: "lower_char (lower_char c) = lower_char c"
  by (auto simp: lower_char_def split: if_splits)

lemma str_lower_idem: "str_lower (str_lower s) = str_lower s"
  by (simp add: str_lower_def lower_char_idem)

lemma startswith_nonempty: "startswith s (c # w) \<Longrightarrow> s \<noteq> [] \<and> hd s = c"
  by (cases s) (auto simp: startswith_def)

lemma classify_file_range:
  "classify_file old new \<in> {''source'', ''test'', ''readme'', ''license'', ''other''}"
  by (simp add: classify_file_def Let_def)

lemma str_lower_Nil: "(str_lower s = []) = (s = [])"
  by (simp add: str_lower_def)

lemma readme_name:
  assumes "startswith (str_lower n) ''readme''" and "CHR ''/'' \<notin> set n"
  shows "classify_file old (Some (d @ CHR ''/'' # n)) = ''readme''"
proof -
  let ?n = "str_lower n"
  have ne: "?n \<noteq> []" "?n \<noteq> ''.''"
    using assms(1) by (auto simp: startswith_def)
  have sl: "CHR ''/'' \<notin> set ?n"
    using assms(2) by (simp add: str_lower_slash)
  have low: "str_lower (d @ CHR ''/'' # n) = str_lower d @ CHR ''/'' # ?n"
    by (simp add: str_lower_def lower_char_def)
  have "path_name (str_lower d @ CHR ''/'' # ?n) = ?n"
    using sl ne by (rule path_name_append)
  then show ?thesis
    using assms(1) by (simp add: classify_file_def or_else_def is_readme_def low str_lower_idem)
qed



lemma lower_char_dot: "(lower_char c = CHR ''.'') = (c = CHR ''.'')"
  by (auto simp: lower_char_def split: if_splits)

lemma str_lower_dot: "(str_lower s = ''.'') = (s = ''.'')"
  by (cases s) (auto simp: str_lower_def lower_char_dot)

lemma split_slash_lower: "split_slash (str_lower p) = map str_lower (split_slash p)"
proof (induction p)
  case Nil
  show ?case by (simp add: str_lower_def)
next
  case (Cons c p)
  obtain s ss where sp: "split_slash p = s # ss"
    using split_slash_not_Nil [of p] by (cases "split_slash p") auto
  have "split_slash (lower_char c # str_lower p) = map str_lower (split_slash (c # p))"
    using Cons sp by (simp add: lower_char_slash) (simp add: str_lower_def)
  then show ?case by (simp add: str_lower_def)
qed

lemma path_parts_lower: "path_parts (str_lower p) = map str_lower (path_parts p)"
  by (simp add: path_parts_def split_slash_lower filter_map o_def str_lower_Nil str_lower_dot)

lemma path_name_lower: "path_name (str_lower p) = str_lower (path_name p)"
  unfolding path_name_def path_parts_lower rev_map [symmetric]
  by (cases "rev (path_parts p)") (simp_all add: str_lower_def)

lemma rfind_lower: "rfind (CHR ''.'') (str_lower s) = rfind (CHR ''.'') s"
  by (induction s) (simp_all add: str_lower_def lower_char_dot Let_def)

lemma path_suffix_lower: "path_suffix (str_lower p) = str_lower (path_suffix p)"
proof -
  have len: "length (str_lower s) = length s" for s
    by (simp add: str_lower_def)
  have drp: "drop k (str_lower s) = str_lower (drop k s)" for k s
    by (simp add: str_lower_def drop_map)
  have nil: "str_lower [] = []"
    by (simp add: str_lower_def)
  show ?thesis
    by (simp add: path_suffix_def Let_def path_name_lower rfind_lower len drp nil)
qed

lemma is_readme_lower: "is_readme (Some (str_lower p)) = is_readme (Some p)"
  by (simp add: is_readme_def path_name_lower str_lower_idem str_lower_Nil)

lemma is_license_lower: "is_license (Some (str_lower p)) = is_license (Some p)"
  by (simp add: is_license_def path_name_lower str_lower_idem str_lower_Nil)

lemma is_test_file_lower: "is_test_file (Some (str_lower p)) = is_test_file (Some p)"
  by (simp add: is_test_file_def str_lower_idem str_lower_Nil)

lemma is_source_code_lower: "is_source_code (Some (str_lower p)) = is_source_code (Some p)"
  by (simp add: is_source_code_def path_suffix_lower str_lower_idem str_lower_Nil)

lemma classify_file_chain:
  "classify_file old new =
     (let p = Some (or_else new (or_else old []))
      in if is_readme p then ''readme''
         else if is_license p then ''license''
         else if is_test_file p then ''test''
         else if is_source_code p then ''source''
         else ''other'')"
  by (simp add: classify_file_def Let_def is_readme_lower is_license_lower
        is_test_file_lower is_source_code_lower)

lemma readme_plain:
  assumes "startswith (str_lower n) ''readme''" and "CHR ''/'' \<notin> set n"
  shows "classify_file old (Some n) = ''readme''"
proof -
  have ne: "n \<noteq> []" "n \<noteq> ''.''"
    using assms(1) by (auto simp: startswith_def str_lower_def)
  have "path_name n = n"
    using assms(2) ne(2) by (rule path_name_plain)
  then show ?thesis
    using assms(1) ne
    by (simp add: classify_file_chain or_else_def is_readme_def)
qed

lemma license_not_readme:
  "startswith s ''license'' \<or> startswith s ''licence'' \<Longrightarrow> \<not> startswith s ''readme''"
  by (cases s) (auto simp: startswith_def)

lemma license_plain:
  assumes "startswith (str_lower n) ''license'' \<or> startswith (str_lower n) ''licence''"
    and "CHR ''/'' \<notin> set n"
  shows "classify_file old (Some n) = ''license''"
proof -
  have ne: "n \<noteq> []" "n \<noteq> ''.''"
    using assms(1) by (auto simp: startswith_def str_lower_def)
  have "path_name n = n"
    using assms(2) ne(2) by (rule path_name_plain)
  then show ?thesis
    using assms(1) ne license_not_readme [OF assms(1)]
    by (simp add: classify_file_chain or_else_def is_readme_def is_license_def Let_def)
qed

lemma license_name:
  assumes "startswith (str_lower n) ''license'' \<or> startswith (str_lower n) ''licence''"
    and "CHR ''/'' \<notin> set n"
  shows "classify_file old (Some (d @ CHR ''/'' # n)) = ''license''"
proof -
  have ne: "n \<noteq> []" "n \<noteq> ''.''"
    using assms(1) by (auto simp: startswith_def str_lower_def)
  have "path_name (d @ CHR ''/'' # n) = n"
    using assms(2) ne by (rule path_name_append)
  then show ?thesis
    using assms(1) license_not_readme [OF assms(1)]
    by (simp add: classify_file_chain or_else_def is_readme_def is_license_def Let_def)
qed

lemma classify_file_new_present:
  "p \<noteq> [] \<Longrightarrow> classify_file old (Some p) = classify_file None (Some p)"
  by (simp add: classify_file_def or_else_def)

lemma classify_file_new_absent:
  "classify_file old None = classify_file None old"
  by (simp add: classify_file_def or_else_def split: option.splits)

text \<open>Claim C1. The test heuristic on the paths of the claim. A segment \<open>test\<close> makes
  \<open>src/test/Foo.py\<close> a test file, and \<open>test\<close> inside \<open>testutils\<close> or
  \<open>contest\<close> does not count. But a file name that begins with \<open>test_\<close> and goes
  on with a letter, as in \<open>src/test_foo.py\<close>, is not matched: after \<open>test\<close> and
  after \<open>test_\<close> the pattern asks for a word boundary, and there is none before
  \<open>_\<close> or before \<open>f\<close>. The file is classified \<open>source\<close>.\<close>

theorem is_test_file_test_prefix:
  "\<not> is_test_file (Some ''src/test_foo.py'') \<and>
   classify_file None (Some ''src/test_foo.py'') = ''source'' \<and>
   \<not> is_test_file (Some ''test_foo'') \<and>
   classify_file None (Some ''src/test/Foo.py'') = ''test'' \<and>
   classify_file None (Some ''src/testutils/Foo.py'') = ''source'' \<and>
   classify_file None (Some ''src/contest/Foo.py'') = ''source''"
proof -
  have "\<not> is_test_file (Some ''src/test_foo.py'')"
    by code_simp
  moreover have "classify_file None (Some ''src/test_foo.py'') = ''source''"
    by code_simp
  moreover have "\<not> is_test_file (Some ''test_foo'')"
    by code_simp
  moreover have "classify_file None (Some ''src/test/Foo.py'') = ''test''"
    by code_simp
  moreover have "classify_file None (Some ''src/testutils/Foo.py'') = ''source''"
    by code_simp
  moreover have "classify_file None (Some ''src/contest/Foo.py'') = ''source''"
    by code_simp
  ultimately show ?thesis by blast
qed

text \<open>Claim C2. For every pair of optional paths (ASCII), \<open>classify_file\<close> returns one
  of the five categories; the category is decided by the first of \<open>is_readme\<close>,
  \<open>is_license\<close>, \<open>is_test_file\<close>, \<open>is_source_code\<close> that holds of the
  chosen path, and is \<open>other\<close> when none does; the chosen path is the new path when there
  is one (the old path is then ignored) and the old path otherwise. In particular a file
  whose name starts with "readme" in any letter case is \<open>readme\<close> whatever directory it
  lies in, a directory named \<open>test\<close> included, and a file whose name starts with "license"
  or "licence" is \<open>license\<close>.\<close>

theorem classify_file_precedence:
  assumes "ascii_opt old" and "ascii_opt new"
    and "is_ascii d" and "is_ascii n" and "CHR ''/'' \<notin> set n" and "p \<noteq> []"
  shows
    "classify_file old new \<in> {''source'', ''test'', ''readme'', ''license'', ''other''} \<and>
     classify_file old new =
       (let c = Some (or_else new (or_else old []))
        in if is_readme c then ''readme''
           else if is_license c then ''license''
           else if is_test_file c then ''test''
           else if is_source_code c then ''source''
           else ''other'') \<and>
     classify_file old (Some p) = classify_file None (Some p) \<and>
     classify_file old None = classify_file None old \<and>
     (startswith (str_lower n) ''readme'' \<longrightarrow>
        classify_file old (Some n) = ''readme'' \<and>
        classify_file old (Some (d @ ''/'' @ n)) = ''readme'') \<and>
     (startswith (str_lower n) ''license'' \<or> startswith (str_lower n) ''licence'' \<longrightarrow>
        classify_file old (Some n) = ''license'' \<and>
        classify_file old (Some (d @ ''/'' @ n)) = ''license'')"
proof -
  have r: "startswith (str_lower n) ''readme'' \<Longrightarrow>
        classify_file old (Some n) = ''readme'' \<and>
        classify_file old (Some (d @ ''/'' @ n)) = ''readme''"
    using readme_plain [of n old] readme_name [of n old d] assms(5) by simp
  have l: "startswith (str_lower n) ''license'' \<or> startswith (str_lower n) ''licence'' \<Longrightarrow>
        classify_file old (Some n) = ''license'' \<and>
        classify_file old (Some (d @ ''/'' @ n)) = ''license''"
    using license_plain [of n old] license_name [of n old d] assms(5) by simp
  show ?thesis
    using r l classify_file_range [of old new]
      classify_file_chain [of old new]
      classify_file_new_present [OF assms(6), of old]
      classify_file_new_absent [of old]
    by blast
qed

theorem classify_file_precedence_witness:
  "ascii_opt (Some ''docs/LICENCE.txt'') \<and> ascii_opt (Some ''src/test/README.md'') \<and>
   is_ascii ''src/test'' \<and> is_ascii ''README.md'' \<and> CHR ''/'' \<notin> set ''README.md'' \<and>
   ''src/test/README.md'' \<noteq> [] \<and>
   startswith (str_lower ''README.md'') ''readme'' \<and>
   classify_file (Some ''docs/LICENCE.txt'') (Some ''src/test/README.md'') = ''readme'' \<and>
   classify_file (Some ''docs/LICENCE.txt'') None = ''license'' \<and>
   is_test_file (Some ''src/test/README.md'')"
proof -
  have h: "ascii_opt (Some ''docs/LICENCE.txt'')" "ascii_opt (Some ''src/test/README.md'')"
    "is_ascii ''src/test''" "is_ascii ''README.md''" "CHR ''/'' \<notin> set ''README.md''"
    "''src/test/README.md'' \<noteq> []"
    by (simp_all add: ascii_opt_def is_ascii_def)
  have s: "startswith (str_lower ''README.md'') ''readme''"
    by (simp add: startswith_def str_lower_def lower_char_def)
  have t: "is_test_file (Some ''src/test/README.md'')"
    by (simp add: is_test_file_def str_lower_def lower_char_def)
  have l: "classify_file None (Some ''docs/LICENCE.txt'') = ''license''"
    by code_simp
  from classify_file_precedence [OF h] s
  have "classify_file (Some ''docs/LICENCE.txt'') (Some (''src/test'' @ ''/'' @ ''README.md'')) = ''readme''"
    and "classify_file (Some ''docs/LICENCE.txt'') None = classify_file None (Some ''docs/LICENCE.txt'')"
    by blast+
  with h s t l show ?thesis by simp
qed

section \<open>Properties of the walker and the records\<close>

lemma files_loop_rows:
  "files_loop run spec c ps ms rows =
     rows @ map (file_row run spec c ps) (filter (\<lambda>m. change_paths m \<noteq> []) ms)"
  by (induction ms arbitrary: rows) simp_all

lemma commits_loop_cutoff:
  "commits_loop run spec k cs seen rows =
     (seen + int (length (cutoff (if k = 0 then 0 else if k \<le> seen then -1 else k - seen) cs)),
      rows @ concat (map (commit_rows run spec)
        (cutoff (if k = 0 then 0 else if k \<le> seen then -1 else k - seen) cs)))"
proof (induction cs arbitrary: seen rows)
  case Nil
  show ?case by (simp add: cutoff_def)
next
  case (Cons c cs)
  show ?case
  proof (cases "k \<noteq> 0 \<and> k \<le> seen")
    case True
    then show ?thesis by (simp add: cutoff_def)
  next
    case False
    have step: "commits_loop run spec k (c # cs) seen rows =
        commits_loop run spec k cs (seen + 1) (rows @ commit_rows run spec c)"
      using False by (auto simp: files_loop_rows commit_rows_def)
    show ?thesis
    proof (cases "k = 0")
      case True
      then show ?thesis
        unfolding step Cons.IH by (simp add: cutoff_def)
    next
      case k: False
      with False have lt: "seen < k" by simp
      have "nat (k - seen) = Suc (nat (k - (seen + 1)))"
        using lt by simp
      then have tk: "take (nat (k - seen)) (c # cs) = c # take (nat (k - (seen + 1))) cs"
        by simp
      show ?thesis
      proof (cases "k \<le> seen + 1")
        case True
        with lt have "k = seen + 1" by simp
        then show ?thesis
          unfolding step Cons.IH using k by (simp add: cutoff_def)
      next
        case False
        then show ?thesis
          unfolding step Cons.IH using k lt tk by (simp add: cutoff_def)
      qed
    qed
  qed
qed

lemma commits_loop_start:
  "commits_loop run spec k cs 0 [] =
     (int (length (cutoff k cs)), concat (map (commit_rows run spec) (cutoff k cs)))"
proof (cases "k < 0")
  case True
  then show ?thesis
    by (simp add: commits_loop_cutoff) (simp add: cutoff_def)
next
  case False
  then show ?thesis
    by (cases "k = 0") (simp_all add: commits_loop_cutoff)
qed

lemmas ex_defs = ex_run_def ex_fail_run_def ex_spec_def ex_added_def ex_renamed_def
  ex_no_paths_def ex_root_def ex_child_def

lemma commit_rows_file_row:
  "r \<in> set (commit_rows run spec c) \<Longrightarrow>
     \<exists>m \<in> set (modified_files c). r = file_row run spec c (parent_of c) m"
  by (auto simp: commit_rows_def)

lemma set_cutoff: "set (cutoff k cs) \<subseteq> set cs"
  by (auto simp: cutoff_def dest: in_set_takeD)

lemma commits_loop_file_row:
  assumes "r \<in> set (snd (commits_loop run spec k cs 0 []))"
  shows "\<exists>c \<in> set cs. \<exists>m \<in> set (modified_files c). r = file_row run spec c (parent_of c) m"
proof -
  from assms obtain c where c: "c \<in> set (cutoff k cs)" and r: "r \<in> set (commit_rows run spec c)"
    by (auto simp: commits_loop_start)
  from c have "c \<in> set cs"
    using set_cutoff [of k cs] by blast
  with commit_rows_file_row [OF r] show ?thesis by blast
qed

lemma set_traverse_commits: "set (traverse_commits order nm history) \<subseteq> set history"
  by (auto simp: traverse_commits_def Let_def)

lemma records_DataFrame: "records (DataFrame rows) = rows"
  by (simp add: DataFrame_def)

lemma analyze_repo_file_row:
  assumes "r \<in> set (records (analyze_repo run spec history k incl))"
  shows "\<exists>c \<in> set history. \<exists>m \<in> set (modified_files c).
           r = file_row run spec c (parent_of c) m"
proof -
  from assms obtain c m where
    "c \<in> set (traverse_commits (Some ''reverse'') (\<not> incl) history)"
    "m \<in> set (modified_files c)" "r = file_row run spec c (parent_of c) m"
    unfolding analyze_repo_def records_DataFrame
    using commits_loop_file_row by blast
  then show ?thesis
    using set_traverse_commits by blast
qed

lemma file_row_fields:
  "repo (file_row run spec c ps m) = name spec"
  "old_file_path (file_row run spec c ps m) = or_else (old_path m) []"
  "new_file_path (file_row run spec c ps m) = or_else (new_path m) []"
  "commit_sha (file_row run spec c ps m) = hash c"
  "parent_commit_sha (file_row run spec c ps m) = ps"
  "file_type (file_row run spec c ps m) = classify_file (old_path m) (new_path m)"
  "diff_myers (file_row run spec c ps m) =
     git_diff_single run (path spec) ps (hash c) (change_paths m) ''myers''"
  "diff_hist (file_row run spec c ps m) =
     git_diff_single run (path spec) ps (hash c) (change_paths m) ''histogram''"
  "Discrepancy (file_row run spec c ps m) =
     (if git_diff_single run (path spec) ps (hash c) (change_paths m) ''myers'' =
         git_diff_single run (path spec) ps (hash c) (change_paths m) ''histogram''
      then ''No'' else ''Yes'')"
  by (simp_all add: file_row_def Let_def)

lemma or_else_Nil: "or_else x [] = (case x of None \<Rightarrow> [] | Some s \<Rightarrow> s)"
  by (simp add: or_else_def split: option.splits)

text \<open>Claim C3. \<open>git_diff_single\<close> returns the standard output of the diff tool when
  it exits with code 0 and its standard error otherwise; nothing is raised. The two texts
  of a record are the results of these calls, whether they succeeded or not, and the
  verdict is their comparison: \<open>No\<close> when they are equal, \<open>Yes\<close> otherwise.\<close>

theorem git_diff_single_exit_code:
  "(returncode (run (diff_cmd ps cm paths alg) dir) = 0 \<longrightarrow>
      git_diff_single run dir ps cm paths alg = stdout (run (diff_cmd ps cm paths alg) dir)) \<and>
   (returncode (run (diff_cmd ps cm paths alg) dir) \<noteq> 0 \<longrightarrow>
      git_diff_single run dir ps cm paths alg = stderr (run (diff_cmd ps cm paths alg) dir)) \<and>
   diff_myers (file_row run spec c ps m) =
     git_diff_single run (path spec) ps (hash c) (change_paths m) ''myers'' \<and>
   diff_hist (file_row run spec c ps m) =
     git_diff_single run (path spec) ps (hash c) (change_paths m) ''histogram'' \<and>
   Discrepancy (file_row run spec c ps m) =
     (if diff_myers (file_row run spec c ps m) = diff_hist (file_row run spec c ps m)
      then ''No'' else ''Yes'')"
  by (simp add: git_diff_single_def Let_def file_row_fields)

theorem git_diff_single_exit_code_witness:
  "returncode (ex_fail_run (diff_cmd ''c1'' ''c2'' [''a.py'', ''b.py''] ''histogram'') ''repos/r'') \<noteq> 0 \<and>
   returncode (ex_fail_run (diff_cmd ''c1'' ''c2'' [''a.py'', ''b.py''] ''myers'') ''repos/r'') = 0 \<and>
   git_diff_single ex_fail_run ''repos/r'' ''c1'' ''c2'' [''a.py'', ''b.py''] ''histogram'' =
     ''fatal: bad revision'' \<and>
   git_diff_single ex_fail_run ''repos/r'' ''c1'' ''c2'' [''a.py'', ''b.py''] ''myers'' = ''diff'' \<and>
   Discrepancy (file_row ex_fail_run ex_spec ex_child ''c1'' ex_renamed) = ''Yes''"
proof -
  have h: "returncode (ex_fail_run (diff_cmd ''c1'' ''c2'' [''a.py'', ''b.py''] ''histogram'') ''repos/r'') \<noteq> 0"
    by (simp add: ex_fail_run_def diff_cmd_def)
  have m: "returncode (ex_fail_run (diff_cmd ''c1'' ''c2'' [''a.py'', ''b.py''] ''myers'') ''repos/r'') = 0"
    by (simp add: ex_fail_run_def diff_cmd_def)
  have e: "stderr (ex_fail_run (diff_cmd ''c1'' ''c2'' [''a.py'', ''b.py''] ''histogram'') ''repos/r'') =
      ''fatal: bad revision''"
    by (simp add: ex_fail_run_def diff_cmd_def)
  have o: "stdout (ex_fail_run (diff_cmd ''c1'' ''c2'' [''a.py'', ''b.py''] ''myers'') ''repos/r'') = ''diff''"
    by (simp add: ex_fail_run_def diff_cmd_def)
  have p: "change_paths ex_renamed = [''a.py'', ''b.py'']" "path ex_spec = ''repos/r''"
    "hash ex_child = ''c2''"
    by (simp_all add: change_paths_def truthy_list_def ex_defs)
  note t1 = git_diff_single_exit_code [of ex_fail_run "''c1''" "''c2''" "[''a.py'', ''b.py'']"
      "''histogram''" "''repos/r''" ex_spec ex_child ex_renamed]
  note t2 = git_diff_single_exit_code [of ex_fail_run "''c1''" "''c2''" "[''a.py'', ''b.py'']"
      "''myers''" "''repos/r''" ex_spec ex_child ex_renamed]
  have gh: "git_diff_single ex_fail_run ''repos/r'' ''c1'' ''c2'' [''a.py'', ''b.py''] ''histogram'' =
     ''fatal: bad revision''"
    using t1 h e by simp
  have gm: "git_diff_single ex_fail_run ''repos/r'' ''c1'' ''c2'' [''a.py'', ''b.py''] ''myers'' = ''diff''"
    using t2 m o by simp
  have "Discrepancy (file_row ex_fail_run ex_spec ex_child ''c1'' ex_renamed) = ''Yes''"
    using t1 gh gm by (simp add: p)
  with h m gh gm show ?thesis by blast
qed

text \<open>Claim C6. The parent reference of a commit without parents is the empty-tree
  identifier, which is not the empty string; that of a commit with parents is the first
  parent. Every record of the dataset carries the parent reference of its commit in
  \<open>parent_commit_sha\<close>, and both of its diff texts come from invocations against that
  reference, which is the eighth word of the command line.\<close>

theorem root_commit_parent:
  assumes "r \<in> set (records (analyze_repo run spec history k incl))"
  shows
    "(parents c = [] \<longrightarrow>
        parent_of c = ''4b825dc642cb6eb9a060e54bf8d69288fbee4904'' \<and> parent_of c \<noteq> []) \<and>
     (parents c = p # ps \<longrightarrow> parent_of c = p) \<and>
     (\<exists>c' \<in> set history. \<exists>m \<in> set (modified_files c').
        commit_sha r = hash c' \<and>
        parent_commit_sha r = parent_of c' \<and>
        diff_myers r =
          git_diff_single run (path spec) (parent_of c') (hash c') (change_paths m) ''myers'' \<and>
        diff_hist r =
          git_diff_single run (path spec) (parent_of c') (hash c') (change_paths m) ''histogram'') \<and>
     diff_cmd (parent_of c) (hash c) paths alg ! 7 = parent_of c"
proof -
  have a: "parents c = [] \<longrightarrow>
        parent_of c = ''4b825dc642cb6eb9a060e54bf8d69288fbee4904'' \<and> parent_of c \<noteq> []"
    by (simp add: parent_of_def empty_tree_def)
  have b: "parents c = p # ps \<longrightarrow> parent_of c = p"
    by (simp add: parent_of_def)
  have d: "diff_cmd (parent_of c) (hash c) paths alg ! 7 = parent_of c"
    by (simp add: diff_cmd_def)
  from analyze_repo_file_row [OF assms] obtain c' m where
    "c' \<in> set history" "m \<in> set (modified_files c')" "r = file_row run spec c' (parent_of c') m"
    by blast
  then have "\<exists>c' \<in> set history. \<exists>m \<in> set (modified_files c').
        commit_sha r = hash c' \<and>
        parent_commit_sha r = parent_of c' \<and>
        diff_myers r =
          git_diff_single run (path spec) (parent_of c') (hash c') (change_paths m) ''myers'' \<and>
        diff_hist r =
          git_diff_single run (path spec) (parent_of c') (hash c') (change_paths m) ''histogram''"
    by (auto simp: file_row_fields)
  with a b d show ?thesis by blast
qed


theorem root_commit_parent_witness:
  "hd (records (analyze_repo ex_run ex_spec [ex_root] 0 False))
     \<in> set (records (analyze_repo ex_run ex_spec [ex_root] 0 False)) \<and>
   parents ex_root = [] \<and>
   parent_commit_sha (hd (records (analyze_repo ex_run ex_spec [ex_root] 0 False))) =
     ''4b825dc642cb6eb9a060e54bf8d69288fbee4904''"
proof -
  let ?r = "hd (records (analyze_repo ex_run ex_spec [ex_root] 0 False))"
  have "records (analyze_repo ex_run ex_spec [ex_root] 0 False) \<noteq> []"
    by code_simp
  then have mem: "?r \<in> set (records (analyze_repo ex_run ex_spec [ex_root] 0 False))"
    by simp
  have root: "parents ex_root = []"
    by (simp add: ex_root_def)
  from root_commit_parent [OF mem, of ex_root] root
  have "parent_of ex_root = ''4b825dc642cb6eb9a060e54bf8d69288fbee4904''"
    and "\<exists>c' \<in> set [ex_root]. parent_commit_sha ?r = parent_of c'"
    by blast+
  then have "parent_commit_sha ?r = ''4b825dc642cb6eb9a060e54bf8d69288fbee4904''"
    by simp
  with mem root show ?thesis by blast
qed

text \<open>Claim C7. Over the commits \<open>cs\<close> that the traversal yields, a cutoff
  \<open>k > 0\<close> lets the loop process at most \<open>k\<close> commits, exactly \<open>k\<close> when there
  are at least \<open>k\<close>, and all of them when there are fewer: the walk is the unbounded walk
  over the first \<open>k\<close> commits. A cutoff of 0 processes every commit.\<close>

theorem max_commits_bound:
  assumes "0 < k"
  shows
    "fst (commits_loop run spec k cs 0 []) \<le> k \<and>
     (k \<le> int (length cs) \<longrightarrow> fst (commits_loop run spec k cs 0 []) = k) \<and>
     (int (length cs) \<le> k \<longrightarrow> fst (commits_loop run spec k cs 0 []) = int (length cs)) \<and>
     commits_loop run spec k cs 0 [] = commits_loop run spec 0 (take (nat k) cs) 0 [] \<and>
     fst (commits_loop run spec 0 cs 0 []) = int (length cs) \<and>
     snd (commits_loop run spec 0 cs 0 []) = concat (map (commit_rows run spec) cs)"
proof -
  have k: "cutoff k xs = take (nat k) xs" for xs :: "commit list"
    using assms by (simp add: cutoff_def)
  have z: "cutoff 0 xs = xs" for xs :: "commit list"
    by (simp add: cutoff_def)
  have f: "fst (commits_loop run spec k cs 0 []) = min k (int (length cs))"
    using assms by (cases "length cs \<le> nat k") (auto simp: commits_loop_start k)
  have e: "commits_loop run spec k cs 0 [] = commits_loop run spec 0 (take (nat k) cs) 0 []"
    by (simp add: commits_loop_start k z)
  show ?thesis
    unfolding f using e by (simp add: commits_loop_start z)
qed

theorem max_commits_bound_witness:
  "(0::int) < 1 \<and> (1::int) \<le> int (length [ex_root, ex_child]) \<and>
   fst (commits_loop ex_run ex_spec 1 [ex_root, ex_child] 0 []) = 1 \<and>
   fst (commits_loop ex_run ex_spec 0 [ex_root, ex_child] 0 []) = 2"
  using max_commits_bound [of 1 ex_run ex_spec "[ex_root, ex_child]"] by simp

text \<open>Claim C9. A file change whose old and new path are both absent (\<open>None\<close>, or
  the empty string) adds no row: the loop over the files of the commit, and the loop over
  the commits, return what they return without that change, so the changes before and
  after it are processed as usual. The loops have no failing branch.\<close>

theorem skip_change_without_paths:
  assumes "old_path m = None \<or> old_path m = Some []"
    and "new_path m = None \<or> new_path m = Some []"
  shows
    "files_loop run spec c ps [m] rows = rows \<and>
     files_loop run spec c ps (before @ m # after) rows =
       files_loop run spec c ps (before @ after) rows \<and>
     commits_loop run spec k (c\<lparr>modified_files := before @ m # after\<rparr> # cs) seen rows =
       commits_loop run spec k (c\<lparr>modified_files := before @ after\<rparr> # cs) seen rows"
proof -
  have e: "change_paths m = []"
    using assms by (auto simp: change_paths_def truthy_list_def)
  have f: "file_row run spec (c\<lparr>modified_files := xs\<rparr>) q = file_row run spec c q" for xs q
    by (simp add: file_row_def fun_eq_iff)
  have p: "parent_of (c\<lparr>modified_files := xs\<rparr>) = parent_of c" for xs
    by (simp add: parent_of_def)
  show ?thesis
    by (simp add: files_loop_rows e f p)
qed

theorem skip_change_without_paths_witness:
  "(old_path ex_no_paths = None \<or> old_path ex_no_paths = Some []) \<and>
   (new_path ex_no_paths = None \<or> new_path ex_no_paths = Some []) \<and>
   files_loop ex_run ex_spec ex_child ''c1'' [ex_renamed, ex_no_paths] [] =
     [file_row ex_run ex_spec ex_child ''c1'' ex_renamed]"
proof -
  have h: "old_path ex_no_paths = None \<or> old_path ex_no_paths = Some []"
    "new_path ex_no_paths = None \<or> new_path ex_no_paths = Some []"
    by (simp_all add: ex_no_paths_def)
  have n: "change_paths ex_renamed \<noteq> []"
    by (simp add: change_paths_def truthy_list_def ex_renamed_def)
  from skip_change_without_paths [OF h, of ex_run ex_spec ex_child "''c1''" _ "[ex_renamed]" "[]"]
  have "files_loop ex_run ex_spec ex_child ''c1'' [ex_renamed, ex_no_paths] [] =
      files_loop ex_run ex_spec ex_child ''c1'' [ex_renamed] []"
    by simp
  with n h show ?thesis by simp
qed

text \<open>Claim C10. Every record of the dataset comes from a file change of a commit of
  the history; its \<open>old_file_path\<close> and \<open>new_file_path\<close> are strings, the empty
  string standing for an absent path, and its category is \<open>classify_file\<close> of the
  optional paths of the change.\<close>

theorem row_paths_are_strings:
  assumes "r \<in> set (records (analyze_repo run spec history k incl))"
  shows
    "\<exists>c \<in> set history. \<exists>m \<in> set (modified_files c).
       r = file_row run spec c (parent_of c) m \<and>
       old_file_path r = (case old_path m of None \<Rightarrow> [] | Some s \<Rightarrow> s) \<and>
       new_file_path r = (case new_path m of None \<Rightarrow> [] | Some s \<Rightarrow> s) \<and>
       file_type r = classify_file (old_path m) (new_path m)"
proof -
  from analyze_repo_file_row [OF assms] obtain c m where
    "c \<in> set history" "m \<in> set (modified_files c)" "r = file_row run spec c (parent_of c) m"
    by blast
  then show ?thesis
    by (auto simp: file_row_fields or_else_Nil)
qed

theorem row_paths_are_strings_witness:
  "hd (records (analyze_repo ex_run ex_spec [ex_root] 0 False))
     \<in> set (records (analyze_repo ex_run ex_spec [ex_root] 0 False)) \<and>
   old_file_path (hd (records (analyze_repo ex_run ex_spec [ex_root] 0 False))) = [] \<and>
   new_file_path (hd (records (analyze_repo ex_run ex_spec [ex_root] 0 False))) = ''a.py'' \<and>
   file_type (hd (records (analyze_repo ex_run ex_spec [ex_root] 0 False))) = ''source''"
proof -
  let ?r = "hd (records (analyze_repo ex_run ex_spec [ex_root] 0 False))"
  have "records (analyze_repo ex_run ex_spec [ex_root] 0 False) \<noteq> []"
    by code_simp
  then have mem: "?r \<in> set (records (analyze_repo ex_run ex_spec [ex_root] 0 False))"
    by simp
  have cl: "classify_file None (Some ''a.py'') = ''source''"
    by code_simp
  from row_paths_are_strings [OF mem] obtain c m where
    c: "c \<in> set [ex_root]" and m: "m \<in> set (modified_files c)" and
    r: "old_file_path ?r = (case old_path m of None \<Rightarrow> [] | Some s \<Rightarrow> s) \<and>
       new_file_path ?r = (case new_path m of None \<Rightarrow> [] | Some s \<Rightarrow> s) \<and>
       file_type ?r = classify_file (old_path m) (new_path m)"
    by blast
  from c m have "m = ex_added"
    by (simp add: ex_root_def)
  with r have "old_file_path ?r = [] \<and> new_file_path ?r = ''a.py'' \<and> file_type ?r = ''source''"
    by (simp add: ex_added_def cl)
  with mem show ?thesis by blast
qed

text \<open>Claim C5, as stated: with a cutoff of one commit, the commit processed would be
  the oldest one. On the example repository the only record is that of the newest commit
  \<open>c2\<close>.\<close>

theorem walk_oldest_first_counterexample:
  "map commit_sha (records (analyze_repo ex_run ex_spec [ex_root, ex_child] 1 False)) = [''c2'']"
  by code_simp

text \<open>Claim C5, amended. The traversal with \<open>order="reverse"\<close> yields the eligible
  commits newest first, so the records are those of the whole eligible history in that
  order when the cutoff is 0, and of its first \<open>k\<close> commits, the most recent ones, when
  the cutoff is \<open>k > 0\<close>.\<close>

theorem walk_newest_first:
  "traverse_commits (Some ''reverse'') (\<not> incl) history = rev (eligible incl history) \<and>
   records (analyze_repo run spec history k incl) =
     snd (commits_loop run spec 0 (cutoff k (rev (eligible incl history))) 0 [])"
proof -
  have t: "traverse_commits (Some ''reverse'') (\<not> incl) history = rev (eligible incl history)"
    by (simp add: traverse_commits_def eligible_def rev_filter)
  have z: "cutoff 0 xs = xs" for xs :: "commit list"
    by (simp add: cutoff_def)
  show ?thesis
    by (simp add: t analyze_repo_def records_DataFrame commits_loop_start z)
qed

end
